theory Spec2Isabelle
  imports Complex_Main
begin

section \<open>The upload script \<^verbatim>\<open>upload_video.py\<close>\<close>

text \<open>
  The script builds the body of a \<^verbatim>\<open>videos().insert\<close> request from the command-line
  options (\<^verbatim>\<open>initialize_upload\<close>) and then drives the resumable upload
  (\<^verbatim>\<open>resumable_upload\<close>): a \<^verbatim>\<open>while response is None\<close> loop around
  \<^verbatim>\<open>insert_request.next_chunk()\<close> with a retry counter and a randomized
  exponential backoff.

  The service client is outside the script. What one call of \<^verbatim>\<open>next_chunk()\<close> does is
  an input of the model (a \<open>chunk\<close>), and so is the number \<^verbatim>\<open>random.random()\<close> returns
  when the iteration asks for one. What the script prints, and how long it sleeps, is
  recorded as a list of events.
\<close>

subsection \<open>Constants\<close>

definition MAX_RETRIES :: nat where
  "MAX_RETRIES = 10"

definition RETRIABLE_STATUS_CODES :: "int list" where
  "RETRIABLE_STATUS_CODES = [500, 502, 503, 504]"

subsection \<open>Data\<close>

text \<open>
  A response of the service is a JSON object, kept as an association list of its keys;
  \<^verbatim>\<open>"id" in response\<close> is \<open>has_key\<close>, \<^verbatim>\<open>response['id']\<close> is \<open>lookup\<close>.
\<close>

type_synonym response = "(string \<times> string) list"

definition has_key :: "string \<Rightarrow> response \<Rightarrow> bool" where
  "has_key k r = (map_of r k \<noteq> None)"

definition lookup :: "response \<Rightarrow> string \<Rightarrow> string" where
  "lookup r k = (case map_of r k of Some v \<Rightarrow> v | None \<Rightarrow> [])"

text \<open>
  The exceptions \<^verbatim>\<open>next_chunk()\<close> can raise, by the \<^verbatim>\<open>except\<close> clause that matches them:
  \<open>HttpError status content\<close>; the two classes of \<^verbatim>\<open>RETRIABLE_EXCEPTIONS\<close>
  (\<^verbatim>\<open>httplib2.HttpLib2Error\<close>, \<^verbatim>\<open>IOError\<close>); and any other exception, which no clause
  matches.
\<close>

datatype exn =
    HttpError int string
  | HttpLib2Error string
  | IOError string
  | OtherException string

text \<open>One call of \<^verbatim>\<open>next_chunk()\<close>: it returns \<^verbatim>\<open>(status, response)\<close>, of which the
  script reads the response only (\<^verbatim>\<open>None\<close> while the transfer is unfinished), or it raises.\<close>

datatype chunk =
    Returns "response option"
  | Raises exn

text \<open>The value of the variable \<^verbatim>\<open>error\<close> when it is not \<^verbatim>\<open>None\<close>: one of the two
  messages the \<^verbatim>\<open>except\<close> clauses build, by its parts.\<close>

datatype err =
    RetriableHttpError int string
  | RetriableError exn

text \<open>The argument of \<^verbatim>\<open>exit(...)\<close>.\<close>

datatype exit_msg =
    UnexpectedResponse response
  | NoLongerRetrying

datatype message =
    UploadingFile
  | UploadedVideo string
  | ErrorText err
  | SleepingAndRetrying real

datatype event =
    Print message
  | Sleep real

text \<open>The three local variables of \<^verbatim>\<open>resumable_upload\<close>. The counter starts at \<open>0\<close>
  and is only ever incremented.\<close>

record state =
  response :: "response option"
  error :: "err option"
  retry :: nat

text \<open>How a block of statements ends: control falls through to the next statement,
  \<^verbatim>\<open>exit\<close> raises \<^verbatim>\<open>SystemExit\<close>, or an exception leaves the function.\<close>

datatype signal =
    Fallthrough
  | SystemExit exit_msg
  | Propagate exn

subsection \<open>The loop of \<^verbatim>\<open>resumable_upload\<close>\<close>

text \<open>The \<^verbatim>\<open>except\<close> clauses, in the order of the source: the message assigned to
  \<^verbatim>\<open>error\<close>, or \<open>None\<close> when the exception is raised again or matches no clause.\<close>

fun except_clauses :: "exn \<Rightarrow> err option" where
  "except_clauses (HttpError status content) =
     (if status \<in> set RETRIABLE_STATUS_CODES
      then Some (RetriableHttpError status content)
      else None)"
| "except_clauses (HttpLib2Error m) = Some (RetriableError (HttpLib2Error m))"
| "except_clauses (IOError m) = Some (RetriableError (IOError m))"
| "except_clauses (OtherException m) = None"

text \<open>The \<^verbatim>\<open>try\<close> statement. \<^verbatim>\<open>SystemExit\<close> is no \<^verbatim>\<open>Exception\<close>, so the \<^verbatim>\<open>exit\<close> inside
  the \<^verbatim>\<open>try\<close> leaves the function. When \<^verbatim>\<open>next_chunk()\<close> raises, the assignment to
  \<^verbatim>\<open>response\<close> does not happen.\<close>

fun try_block :: "state \<Rightarrow> chunk \<Rightarrow> event list \<times> state \<times> signal" where
  "try_block st (Returns None) =
     ([Print UploadingFile], st\<lparr>response := None\<rparr>, Fallthrough)"
| "try_block st (Returns (Some r)) =
     (if has_key ''id'' r
      then ([Print UploadingFile, Print (UploadedVideo (lookup r ''id''))],
            st\<lparr>response := Some r\<rparr>, Fallthrough)
      else ([Print UploadingFile], st\<lparr>response := Some r\<rparr>,
            SystemExit (UnexpectedResponse r)))"
| "try_block st (Raises e) =
     (case except_clauses e of
        Some msg \<Rightarrow> ([Print UploadingFile], st\<lparr>error := Some msg\<rparr>, Fallthrough)
      | None \<Rightarrow> ([Print UploadingFile], st, Propagate e))"

text \<open>The statement \<^verbatim>\<open>if error is not None: ...\<close> after the \<^verbatim>\<open>try\<close>; \<open>u\<close> is what
  \<^verbatim>\<open>random.random()\<close> returns when it is called.\<close>

definition error_block :: "state \<Rightarrow> real \<Rightarrow> event list \<times> state \<times> signal" where
  "error_block st u =
     (case error st of
        None \<Rightarrow> ([], st, Fallthrough)
      | Some msg \<Rightarrow>
          (let st' = st\<lparr>retry := retry st + 1\<rparr> in
           if retry st' > MAX_RETRIES
           then ([Print (ErrorText msg)], st', SystemExit NoLongerRetrying)
           else (let sleep_seconds = u * 2 ^ retry st' in
                 ([Print (ErrorText msg), Print (SleepingAndRetrying sleep_seconds),
                   Sleep sleep_seconds], st', Fallthrough))))"

text \<open>One iteration of the loop.\<close>

definition loop_body :: "state \<Rightarrow> chunk \<times> real \<Rightarrow> event list \<times> state \<times> signal" where
  "loop_body st x =
     (case try_block st (fst x) of
        (evs, st', Fallthrough) \<Rightarrow>
          (case error_block st' (snd x) of (evs', r) \<Rightarrow> (evs @ evs', r))
      | (evs, st', sig) \<Rightarrow> (evs, st', sig))"

text \<open>How the function ends. The loop has no bound of its own: when the inputs are
  used up and \<^verbatim>\<open>response\<close> is still \<^verbatim>\<open>None\<close>, the loop is waiting for the next call
  of \<^verbatim>\<open>next_chunk()\<close>, which is \<open>AwaitingChunk\<close>.\<close>

datatype outcome =
    Returned
  | Exited exit_msg
  | Raised exn
  | AwaitingChunk

fun while_loop :: "state \<Rightarrow> (chunk \<times> real) list \<Rightarrow> event list \<times> state \<times> outcome" where
  "while_loop st [] =
     ([], st, if response st = None then AwaitingChunk else Returned)"
| "while_loop st (x # xs) =
     (if response st = None
      then (case loop_body st x of
              (evs, st', Fallthrough) \<Rightarrow>
                (case while_loop st' xs of (evs', r) \<Rightarrow> (evs @ evs', r))
            | (evs, st', SystemExit m) \<Rightarrow> (evs, st', Exited m)
            | (evs, st', Propagate e) \<Rightarrow> (evs, st', Raised e))
      else ([], st, Returned))"

definition initial :: state where
  "initial = \<lparr>response = None, error = None, retry = 0\<rparr>"

definition resumable_upload :: "(chunk \<times> real) list \<Rightarrow> event list \<times> state \<times> outcome" where
  "resumable_upload xs = while_loop initial xs"

subsection \<open>The request of \<^verbatim>\<open>initialize_upload\<close>\<close>

text \<open>The options the argument parser hands over; every one is a string.\<close>

record options =
  "file" :: string
  title :: string
  description :: string
  category :: string
  "keywords" :: string
  privacyStatus :: string

text \<open>The request body is a dictionary of dictionaries, strings, a list and
  \<^verbatim>\<open>None\<close>: a JSON value. An object keeps its keys in insertion order.\<close>

datatype json =
    JNull
  | JString string
  | JList "json list"
  | JObject "(string \<times> json) list"

fun member :: "json \<Rightarrow> string \<Rightarrow> json option" where
  "member (JObject kvs) k = map_of kvs k"
| "member _ k = None"

fun keys :: "json \<Rightarrow> string list" where
  "keys (JObject kvs) = map fst kvs"
| "keys _ = []"

text \<open>
  \<^verbatim>\<open>s.split(sep)\<close> for a separator of one character, and \<^verbatim>\<open>sep.join(ws)\<close>. A
  \<open>string\<close> is a list of bytes; the comma is one byte that occurs in no multi-byte
  UTF-8 sequence, so splitting the bytes at commas splits the code points at commas.
\<close>

fun str_split :: "char \<Rightarrow> string \<Rightarrow> string list" where
  "str_split sep [] = [[]]"
| "str_split sep (c # cs) =
     (if c = sep then [] # str_split sep cs
      else (case str_split sep cs of
              [] \<Rightarrow> [[c]]
            | w # ws \<Rightarrow> (c # w) # ws))"

fun str_join :: "string \<Rightarrow> string list \<Rightarrow> string" where
  "str_join sep [] = []"
| "str_join sep [w] = w"
| "str_join sep (w # ws) = w @ sep @ str_join sep ws"

text \<open>\<^verbatim>\<open>tags = options.keywords.split(",") if options.keywords else None\<close>: the empty
  string is false.\<close>

definition tags :: "options \<Rightarrow> json" where
  "tags opts =
     (if keywords opts \<noteq> [] then JList (map JString (str_split CHR '','' (keywords opts)))
      else JNull)"

definition body :: "options \<Rightarrow> json" where
  "body opts =
     JObject
      [(''snippet'', JObject
          [(''title'', JString (title opts)),
           (''description'', JString (description opts)),
           (''tags'', tags opts),
           (''categoryId'', JString (category opts))]),
       (''status'', JObject [(''privacyStatus'', JString (privacyStatus opts))])]"

text \<open>The arguments of \<^verbatim>\<open>youtube.videos().insert\<close> and of \<^verbatim>\<open>MediaFileUpload\<close>.\<close>

record insert_request =
  part :: string
  request_body :: json
  media_file :: string
  chunksize :: int
  resumable :: bool

definition insert_request :: "options \<Rightarrow> insert_request" where
  "insert_request opts =
     \<lparr>part = str_join '','' (keys (body opts)),
      request_body = body opts,
      media_file = file opts,
      chunksize = - 1,
      resumable = True\<rparr>"

text \<open>\<^verbatim>\<open>initialize_upload\<close> builds the request and runs the loop on it.\<close>

definition initialize_upload ::
  "options \<Rightarrow> (chunk \<times> real) list \<Rightarrow> insert_request \<times> event list \<times> state \<times> outcome" where
  "initialize_upload opts xs = (insert_request opts, resumable_upload xs)"

text \<open>\<^verbatim>\<open>body["snippet"]["tags"]\<close> and \<^verbatim>\<open>body["status"]["privacyStatus"]\<close> of the
  request.\<close>

definition request_tags :: "insert_request \<Rightarrow> json option" where
  "request_tags rq =
     (case member (request_body rq) ''snippet'' of
        None \<Rightarrow> None
      | Some snippet \<Rightarrow> member snippet ''tags'')"

definition request_privacy :: "insert_request \<Rightarrow> json option" where
  "request_privacy rq =
     (case member (request_body rq) ''status'' of
        None \<Rightarrow> None
      | Some status \<Rightarrow> member status ''privacyStatus'')"

section \<open>Properties of the loop\<close>

subsection \<open>Runs and their prefixes\<close>

lemmas run_defs = resumable_upload_def initial_def loop_body_def error_block_def
  MAX_RETRIES_def RETRIABLE_STATUS_CODES_def has_key_def lookup_def

lemma while_loop_append:
  "while_loop st xs = (evs, st', AwaitingChunk) \<Longrightarrow>
   while_loop st (xs @ ys) = (evs @ fst (while_loop st' ys), snd (while_loop st' ys))"
proof (induction xs arbitrary: st evs)
  case Nil
  then show ?case by (cases ys) (auto split: if_splits)
next
  case (Cons x xs)
  then show ?case
    by (auto split: if_splits prod.splits signal.splits)
qed

lemma awaiting_response_None:
  "while_loop st xs = (evs, st', AwaitingChunk) \<Longrightarrow> response st' = None"
  by (induction xs arbitrary: st evs) (auto split: if_splits prod.splits signal.splits)

lemma try_block_uploaded:
  "try_block st c = (evs, st', Fallthrough) \<Longrightarrow> Print (UploadedVideo v) \<in> set evs \<Longrightarrow>
   response st' \<noteq> None"
  by (cases "(st, c)" rule: try_block.cases) (auto split: if_splits option.splits)

lemma error_block_response:
  "error_block st u = (evs, st', sig) \<Longrightarrow>
   response st' = response st \<and> Print (UploadedVideo v) \<notin> set evs"
  by (auto simp: error_block_def Let_def split: option.splits if_splits)

lemma loop_body_uploaded:
  "loop_body st x = (evs, st', Fallthrough) \<Longrightarrow> Print (UploadedVideo v) \<in> set evs \<Longrightarrow>
   response st' \<noteq> None"
proof -
  assume body: "loop_body st x = (evs, st', Fallthrough)" and mem: "Print (UploadedVideo v) \<in> set evs"
  obtain evs1 st1 sig1 where t: "try_block st (fst x) = (evs1, st1, sig1)"
    by (cases "try_block st (fst x)") auto
  obtain evs2 st2 sig2 where e: "error_block st1 (snd x) = (evs2, st2, sig2)"
    by (cases "error_block st1 (snd x)") auto
  from body t e have sig1: "sig1 = Fallthrough" and eq: "evs = evs1 @ evs2" "st' = st2"
    by (auto simp: loop_body_def split: signal.splits)
  from error_block_response [OF e] have r: "response st2 = response st1"
    and n: "Print (UploadedVideo v) \<notin> set evs2" by auto
  from mem eq n have "Print (UploadedVideo v) \<in> set evs1" by simp
  with t sig1 have "response st1 \<noteq> None" using try_block_uploaded by blast
  with r eq show ?thesis by simp
qed

lemma awaiting_not_uploaded:
  "while_loop st xs = (evs, st', AwaitingChunk) \<Longrightarrow> Print (UploadedVideo v) \<notin> set evs"
proof (induction xs arbitrary: st evs)
  case Nil
  then show ?case by simp
next
  case (Cons x xs)
  from Cons.prems have none: "response st = None"
    by (auto split: if_splits)
  obtain evs1 st1 sig where body: "loop_body st x = (evs1, st1, sig)"
    by (cases "loop_body st x") auto
  with Cons.prems none have sig: "sig = Fallthrough"
    by (auto split: signal.splits prod.splits)
  obtain evs2 r where rest: "while_loop st1 xs = (evs2, r)"
    by (cases "while_loop st1 xs") auto
  with Cons.prems none body sig have r: "r = (st', AwaitingChunk)" and evs: "evs = evs1 @ evs2"
    by auto
  from rest r have "response st1 = None"
    by (cases xs) (auto split: if_splits)
  with body sig have "Print (UploadedVideo v) \<notin> set evs1"
    using loop_body_uploaded by blast
  moreover from Cons.IH rest r have "Print (UploadedVideo v) \<notin> set evs2"
    by simp
  ultimately show ?case using evs by simp
qed

subsection \<open>Fatal failures\<close>

text \<open>
  Claim C4. A chunk attempt that raises an \<^verbatim>\<open>HttpError\<close> whose status is none of 500,
  502, 503, 504 ends the function at once, whatever the state of the loop and wherever
  in the sequence it happens: the exception leaves the function, the only event of the
  iteration is the line printed before the call (no sleep), the variables are as they
  were before the attempt (the retry counter is not incremented), and the outcomes that
  would follow are never asked for.
\<close>

theorem fatal_failure_aborts:
  assumes "status \<notin> {500, 502, 503, 504}"
  shows "(response st0 = None \<longrightarrow>
            while_loop st0 ((Raises (HttpError status content), u) # rest)
              = ([Print UploadingFile], st0, Raised (HttpError status content)))
       \<and> (resumable_upload pre = (evs, st, AwaitingChunk) \<longrightarrow>
            resumable_upload (pre @ (Raises (HttpError status content), u) # rest)
              = (evs @ [Print UploadingFile], st, Raised (HttpError status content)))"
proof -
  from assms have fatal: "except_clauses (HttpError status content) = None"
    by (simp add: RETRIABLE_STATUS_CODES_def)
  have step: "while_loop s ((Raises (HttpError status content), u) # rest)
      = ([Print UploadingFile], s, Raised (HttpError status content))"
    if "response s = None" for s
    using that fatal by (simp add: loop_body_def)
  show ?thesis
  proof (intro conjI impI)
    assume "response st0 = None"
    then show "while_loop st0 ((Raises (HttpError status content), u) # rest)
              = ([Print UploadingFile], st0, Raised (HttpError status content))"
      by (rule step)
  next
    assume run: "resumable_upload pre = (evs, st, AwaitingChunk)"
    then have none: "response st = None"
      by (auto simp: resumable_upload_def dest: awaiting_response_None)
    from run show "resumable_upload (pre @ (Raises (HttpError status content), u) # rest)
              = (evs @ [Print UploadingFile], st, Raised (HttpError status content))"
      by (simp add: resumable_upload_def while_loop_append step [OF none] del: while_loop.simps)
  qed
qed

theorem fatal_failure_aborts_witness:
  "(404::int) \<notin> {500, 502, 503, 504}
   \<and> resumable_upload [(Raises (IOError ''reset''), 1/2)]
       = ([Print UploadingFile, Print (ErrorText (RetriableError (IOError ''reset''))),
           Print (SleepingAndRetrying 1), Sleep 1],
          \<lparr>response = None, error = Some (RetriableError (IOError ''reset'')), retry = 1\<rparr>,
          AwaitingChunk)
   \<and> resumable_upload [(Raises (IOError ''reset''), 1/2),
                        (Raises (HttpError 404 ''not found''), 1/2), (Returns None, 1/2)]
       = ([Print UploadingFile, Print (ErrorText (RetriableError (IOError ''reset''))),
           Print (SleepingAndRetrying 1), Sleep 1, Print UploadingFile],
          \<lparr>response = None, error = Some (RetriableError (IOError ''reset'')), retry = 1\<rparr>,
          Raised (HttpError 404 ''not found''))"
  using fatal_failure_aborts [of 404 initial "''not found''" "1/2" "[(Returns None, 1/2)]"
      "[(Raises (IOError ''reset''), 1/2)]"]
  by (simp add: run_defs)

text \<open>
  Claim C8. A response that is not \<^verbatim>\<open>None\<close> and has no \<^verbatim>\<open>id\<close> ends the function at
  once with \<^verbatim>\<open>exit\<close>, whatever the state of the loop and wherever in the sequence it
  happens: no sleep, no change of the retry counter, no further attempt, and no line
  reporting an uploaded video anywhere in the run.
\<close>

theorem unexpected_response_exits:
  assumes "\<not> has_key ''id'' r"
  shows "(response st0 = None \<longrightarrow>
            while_loop st0 ((Returns (Some r), u) # rest)
              = ([Print UploadingFile], st0\<lparr>response := Some r\<rparr>, Exited (UnexpectedResponse r)))
       \<and> (resumable_upload pre = (evs, st, AwaitingChunk) \<longrightarrow>
            resumable_upload (pre @ (Returns (Some r), u) # rest)
              = (evs @ [Print UploadingFile], st\<lparr>response := Some r\<rparr>,
                 Exited (UnexpectedResponse r))
            \<and> Print (UploadedVideo v) \<notin> set (evs @ [Print UploadingFile]))"
proof -
  have step: "while_loop s ((Returns (Some r), u) # rest)
      = ([Print UploadingFile], s\<lparr>response := Some r\<rparr>, Exited (UnexpectedResponse r))"
    if "response s = None" for s
    using that assms by (simp add: loop_body_def)
  show ?thesis
  proof (intro conjI impI)
    assume "response st0 = None"
    then show "while_loop st0 ((Returns (Some r), u) # rest)
              = ([Print UploadingFile], st0\<lparr>response := Some r\<rparr>, Exited (UnexpectedResponse r))"
      by (rule step)
  next
    assume run: "resumable_upload pre = (evs, st, AwaitingChunk)"
    then have none: "response st = None"
      by (auto simp: resumable_upload_def dest: awaiting_response_None)
    from run show "resumable_upload (pre @ (Returns (Some r), u) # rest)
              = (evs @ [Print UploadingFile], st\<lparr>response := Some r\<rparr>,
                 Exited (UnexpectedResponse r))"
      by (simp add: resumable_upload_def while_loop_append step [OF none] del: while_loop.simps)
  next
    assume run: "resumable_upload pre = (evs, st, AwaitingChunk)"
    then have "Print (UploadedVideo v) \<notin> set evs"
      by (auto simp: resumable_upload_def dest: awaiting_not_uploaded)
    then show "Print (UploadedVideo v) \<notin> set (evs @ [Print UploadingFile])"
      by simp
  qed
qed

theorem unexpected_response_exits_witness:
  "\<not> has_key ''id'' [(''kind'', ''youtube#video'')]
   \<and> resumable_upload [(Raises (HttpError 503 ''busy''), 1/2)]
       = ([Print UploadingFile, Print (ErrorText (RetriableHttpError 503 ''busy'')),
           Print (SleepingAndRetrying 1), Sleep 1],
          \<lparr>response = None, error = Some (RetriableHttpError 503 ''busy''), retry = 1\<rparr>,
          AwaitingChunk)
   \<and> resumable_upload [(Raises (HttpError 503 ''busy''), 1/2),
                        (Returns (Some [(''kind'', ''youtube#video'')]), 1/2),
                        (Returns None, 1/2)]
       = ([Print UploadingFile, Print (ErrorText (RetriableHttpError 503 ''busy'')),
           Print (SleepingAndRetrying 1), Sleep 1, Print UploadingFile],
          \<lparr>response = Some [(''kind'', ''youtube#video'')],
           error = Some (RetriableHttpError 503 ''busy''), retry = 1\<rparr>,
          Exited (UnexpectedResponse [(''kind'', ''youtube#video'')]))"
  using unexpected_response_exits [of "[(''kind'', ''youtube#video'')]" initial "1/2"
      "[(Returns None, 1/2)]" "[(Raises (HttpError 503 ''busy''), 1/2)]"]
  by (simp add: run_defs)

subsection \<open>Which exceptions are retried\<close>

text \<open>The \<^verbatim>\<open>except\<close> clauses assign \<^verbatim>\<open>error\<close> for the two classes of
  \<^verbatim>\<open>RETRIABLE_EXCEPTIONS\<close> and for an \<^verbatim>\<open>HttpError\<close> whose status is 500, 502, 503 or
  504, and for no other exception.\<close>

lemma except_clauses_retriable:
  "(except_clauses e \<noteq> None)
     = ((\<exists>m. e = HttpLib2Error m) \<or> (\<exists>m. e = IOError m)
        \<or> (\<exists>s b. e = HttpError s b \<and> s \<in> {500, 502, 503, 504}))"
  by (cases e) (auto simp: RETRIABLE_STATUS_CODES_def)

text \<open>An \<^verbatim>\<open>HttpError\<close> with any other status leaves the iteration as an exception, in
  every state of the loop.\<close>

lemma other_status_propagates:
  "status \<notin> {500, 502, 503, 504} \<Longrightarrow>
   loop_body st (Raises (HttpError status content), u)
     = ([Print UploadingFile], st, Propagate (HttpError status content))"
  by (simp add: loop_body_def RETRIABLE_STATUS_CODES_def)

text \<open>An attempt that returns leaves \<^verbatim>\<open>error\<close> as it was: \<^verbatim>\<open>None\<close> stays \<^verbatim>\<open>None\<close>,
  and the message of an earlier failure stays too.\<close>

lemma returning_attempt_keeps_error:
  "error (fst (snd (try_block st (Returns x)))) = error st"
  by (cases x) auto

subsection \<open>The backoff sleep\<close>

lemma try_block_no_sleep: "try_block st c = (evs, st', sig) \<Longrightarrow> Sleep d \<notin> set evs"
  by (cases "(st, c)" rule: try_block.cases) (auto split: if_splits option.splits)

lemma try_block_retry: "try_block st c = (evs, st', sig) \<Longrightarrow> retry st' = retry st"
  by (cases "(st, c)" rule: try_block.cases) (auto split: if_splits option.splits)

lemma error_block_sleep:
  "error_block st u = (evs, st', sig) \<Longrightarrow> Sleep d \<in> set evs \<Longrightarrow>
   retry st' = retry st + 1 \<and> retry st' \<le> MAX_RETRIES \<and> d = u * 2 ^ retry st' \<and> sig = Fallthrough"
  by (auto simp: error_block_def Let_def split: option.splits if_splits)

lemma loop_body_sleep:
  assumes "loop_body st (c, u) = (evs, st', sig)" and "Sleep d \<in> set evs"
  shows "retry st' = retry st + 1 \<and> retry st' \<le> MAX_RETRIES \<and> d = u * 2 ^ retry st'
     \<and> sig = Fallthrough"
proof -
  obtain evs1 st1 sig1 where t: "try_block st c = (evs1, st1, sig1)"
    by (cases "try_block st c") auto
  obtain evs2 st2 sig2 where e: "error_block st1 u = (evs2, st2, sig2)"
    by (cases "error_block st1 u") auto
  from try_block_no_sleep [OF t] have n: "Sleep d \<notin> set evs1" .
  show ?thesis
  proof (cases sig1)
    case Fallthrough
    with assms t e have "evs = evs1 @ evs2" "st' = st2" "sig = sig2"
      by (auto simp: loop_body_def)
    with assms n e try_block_retry [OF t] error_block_sleep [of st1 u evs2 st2 sig2 d]
    show ?thesis by auto
  next
    case (SystemExit m)
    with assms t n show ?thesis by (auto simp: loop_body_def)
  next
    case (Propagate x)
    with assms t n show ?thesis by (auto simp: loop_body_def)
  qed
qed

lemma while_loop_sleep_bound:
  "\<forall>x \<in> set xs. 0 \<le> snd x \<and> snd x < 1 \<Longrightarrow> while_loop st xs = (evs, r) \<Longrightarrow>
   Sleep d \<in> set evs \<Longrightarrow> 0 \<le> d \<and> d < 2 ^ MAX_RETRIES"
proof (induction xs arbitrary: st evs r)
  case Nil
  then show ?case by simp
next
  case (Cons x xs)
  from Cons.prems have none: "response st = None"
    by (auto split: if_splits)
  obtain c u where x: "x = (c, u)" by (cases x)
  with Cons.prems have u: "0 \<le> u" "u < 1" by auto
  obtain evs1 st1 sig where body: "loop_body st (c, u) = (evs1, st1, sig)"
    by (cases "loop_body st (c, u)") auto
  have first: "0 \<le> d \<and> d < 2 ^ MAX_RETRIES" if "Sleep d \<in> set evs1"
  proof -
    from loop_body_sleep [OF body that]
    have k: "retry st1 \<le> MAX_RETRIES" and d: "d = u * 2 ^ retry st1" by auto
    from u d have "0 \<le> d" "d < 2 ^ retry st1" by simp_all
    moreover from k have "(2::real) ^ retry st1 \<le> 2 ^ MAX_RETRIES"
      by (simp add: power_increasing)
    ultimately show ?thesis by linarith
  qed
  show ?case
  proof (cases sig)
    case Fallthrough
    obtain evs2 r2 where rest: "while_loop st1 xs = (evs2, r2)"
      by (cases "while_loop st1 xs") auto
    with Cons.prems none body x Fallthrough have "evs = evs1 @ evs2" by auto
    with Cons.prems have "Sleep d \<in> set evs1 \<or> Sleep d \<in> set evs2" by auto
    then show ?thesis
    proof
      assume "Sleep d \<in> set evs1" then show ?thesis by (rule first)
    next
      assume "Sleep d \<in> set evs2"
      with Cons.IH [OF _ rest] Cons.prems(1) show ?thesis by simp
    qed
  next
    case (SystemExit m)
    with Cons.prems none body x have "evs = evs1" by auto
    with Cons.prems first show ?thesis by simp
  next
    case (Propagate e)
    with Cons.prems none body x have "evs = evs1" by auto
    with Cons.prems first show ?thesis by simp
  qed
qed

text \<open>
  Claim C6. Whenever an iteration sleeps, the retry counter has just been incremented
  to some \<open>k\<close> and the duration is the number drawn in that iteration times \<open>2 ^ k\<close>; for
  a draw in \<open>[0, 1)\<close> it lies in \<open>[0, 2 ^ k)\<close>. A retriable failure below the ceiling
  does sleep, once, for that duration.
\<close>

theorem backoff_sleep_duration:
  assumes "0 \<le> u" and "u < 1"
  shows "(loop_body st (c, u) = (evs, st', sig) \<and> Sleep d \<in> set evs \<longrightarrow>
            retry st' = retry st + 1 \<and> d = u * 2 ^ retry st' \<and> 0 \<le> d \<and> d < 2 ^ retry st')
       \<and> (except_clauses e = Some msg \<and> retry st < MAX_RETRIES \<longrightarrow>
            loop_body st (Raises e, u)
              = ([Print UploadingFile, Print (ErrorText msg),
                  Print (SleepingAndRetrying (u * 2 ^ (retry st + 1))),
                  Sleep (u * 2 ^ (retry st + 1))],
                 st\<lparr>error := Some msg, retry := retry st + 1\<rparr>, Fallthrough))"
proof -
  have slept: "retry st' = retry st + 1 \<and> d = u * 2 ^ retry st' \<and> 0 \<le> d \<and> d < 2 ^ retry st'"
    if body: "loop_body st (c, u) = (evs, st', sig)" and mem: "Sleep d \<in> set evs"
  proof -
    from loop_body_sleep [OF body mem]
    have k: "retry st' = retry st + 1" and d: "d = u * 2 ^ retry st'" by auto
    from assms d have "0 \<le> d" "d < 2 ^ retry st'" by simp_all
    with k d show ?thesis by simp
  qed
  have sleeps: "loop_body st (Raises e, u)
              = ([Print UploadingFile, Print (ErrorText msg),
                  Print (SleepingAndRetrying (u * 2 ^ (retry st + 1))),
                  Sleep (u * 2 ^ (retry st + 1))],
                 st\<lparr>error := Some msg, retry := retry st + 1\<rparr>, Fallthrough)"
    if "except_clauses e = Some msg" and "retry st < MAX_RETRIES"
    using that by (simp add: loop_body_def error_block_def Let_def)
  from slept sleeps show ?thesis by blast
qed

theorem backoff_sleep_duration_witness:
  "(0::real) \<le> 3/4 \<and> (3/4::real) < 1
   \<and> loop_body \<lparr>response = None, error = Some (RetriableError (IOError ''reset'')), retry = 3\<rparr>
        (Raises (HttpError 503 ''busy''), 3/4)
       = ([Print UploadingFile, Print (ErrorText (RetriableHttpError 503 ''busy'')),
           Print (SleepingAndRetrying 12), Sleep 12],
          \<lparr>response = None, error = Some (RetriableHttpError 503 ''busy''), retry = 4\<rparr>,
          Fallthrough)
   \<and> (12::real) = 3/4 * 2 ^ 4 \<and> (0::real) \<le> 12 \<and> (12::real) < 2 ^ 4"
  using backoff_sleep_duration [where u = "3/4"
      and st = "\<lparr>response = None, error = Some (RetriableError (IOError ''reset'')), retry = 3\<rparr>"
      and c = "Raises (HttpError 503 ''busy'')"
      and evs = "[Print UploadingFile, Print (ErrorText (RetriableHttpError 503 ''busy'')),
           Print (SleepingAndRetrying 12), Sleep 12]"
      and st' = "\<lparr>response = None, error = Some (RetriableHttpError 503 ''busy''), retry = 4\<rparr>"
      and sig = Fallthrough and d = 12
      and e = "HttpError 503 ''busy''" and msg = "RetriableHttpError 503 ''busy''"]
  by (simp add: loop_body_def error_block_def MAX_RETRIES_def RETRIABLE_STATUS_CODES_def)

text \<open>
  Claim C7, as amended. The counter is compared with \<^verbatim>\<open>MAX_RETRIES\<close> before the sleep,
  so a sleep happens only with a counter of at most 10: every sleep of every run is
  shorter than \<open>2 ^ 10\<close> seconds, the tenth retry sleeps \<open>u * 2 ^ 10\<close> for its draw \<open>u\<close>,
  and the eleventh retriable failure prints its error and leaves without a sleep.
\<close>

theorem longest_sleep:
  "((\<forall>x \<in> set xs. 0 \<le> snd x \<and> snd x < 1) \<and> Sleep d \<in> set (fst (resumable_upload xs))
      \<longrightarrow> 0 \<le> d \<and> d < 2 ^ 10)
   \<and> Sleep (u * 2 ^ 10) \<in> set (fst (resumable_upload (replicate 10 (Raises (IOError m), u))))
   \<and> fst (resumable_upload (replicate 11 (Raises (IOError m), u)))
       = fst (resumable_upload (replicate 10 (Raises (IOError m), u)))
         @ [Print UploadingFile, Print (ErrorText (RetriableError (IOError m)))]"
proof -
  have bound: "0 \<le> d \<and> d < 2 ^ 10"
    if v: "\<forall>x \<in> set xs. 0 \<le> snd x \<and> snd x < 1"
      and mem: "Sleep d \<in> set (fst (resumable_upload xs))"
  proof -
    obtain evs r where run: "while_loop initial xs = (evs, r)"
      by (cases "while_loop initial xs") auto
    with mem have "Sleep d \<in> set evs" by (simp add: resumable_upload_def)
    from while_loop_sleep_bound [OF v run this] show ?thesis
      by (simp add: MAX_RETRIES_def)
  qed
  have reached: "Sleep (u * 2 ^ 10) \<in> set (fst (resumable_upload (replicate 10 (Raises (IOError m), u))))"
    by (simp add: run_defs Let_def numeral_eq_Suc)
  have last: "fst (resumable_upload (replicate 11 (Raises (IOError m), u)))
       = fst (resumable_upload (replicate 10 (Raises (IOError m), u)))
         @ [Print UploadingFile, Print (ErrorText (RetriableError (IOError m)))]"
    by (simp add: run_defs Let_def numeral_eq_Suc)
  from bound reached last show ?thesis by blast
qed

theorem longest_sleep_witness:
  "(0::real) \<le> 1/2 \<and> (1/2::real) < 1
   \<and> Sleep 512 \<in> set (fst (resumable_upload (replicate 10 (Raises (IOError ''reset''), 1/2))))
   \<and> (512::real) < 2 ^ 10"
  using longest_sleep [where xs = "replicate 10 (Raises (IOError ''reset''), 1/2)"
      and d = 512 and u = "1/2" and m = "''reset''"]
  by simp

text \<open>Claim C7, as stated, asks for sleeps of up to \<open>2 ^ 11\<close> seconds; no run has a
  sleep of \<open>2 ^ 10\<close> seconds or more.\<close>

theorem sleep_of_2048_counterexample:
  "\<not> (\<exists>xs d. (\<forall>x \<in> set xs. 0 \<le> snd x \<and> snd x < 1)
         \<and> Sleep d \<in> set (fst (resumable_upload xs)) \<and> 2 ^ 10 \<le> d)"
proof
  assume "\<exists>xs d. (\<forall>x \<in> set xs. 0 \<le> snd x \<and> snd x < 1)
         \<and> Sleep d \<in> set (fst (resumable_upload xs)) \<and> 2 ^ 10 \<le> d"
  then obtain xs d where v: "\<forall>x \<in> set xs. 0 \<le> snd x \<and> snd x < 1"
    and s: "Sleep d \<in> set (fst (resumable_upload xs))" and d: "2 ^ 10 \<le> d"
    by blast
  obtain evs r where run: "while_loop initial xs = (evs, r)"
    by (cases "while_loop initial xs") auto
  with s have "Sleep d \<in> set evs" by (simp add: resumable_upload_def)
  from while_loop_sleep_bound [OF v run this] have "d < 2 ^ 10"
    by (simp add: MAX_RETRIES_def)
  with d show False by simp
qed

subsection \<open>When the loop ends\<close>

text \<open>The loop is not left waiting once an attempt has returned a response or raised
  an exception that is not retried, nor once \<^verbatim>\<open>error\<close> is set and the remaining attempts
  outnumber the retries left.\<close>

lemma terminal_chunk_ends_run:
  assumes "(\<exists>r. c = Returns (Some r)) \<or> (\<exists>e. c = Raises e \<and> except_clauses e = None)"
  shows "snd (snd (while_loop st (xs @ [(c, u)]))) \<noteq> AwaitingChunk"
proof (induction xs arbitrary: st)
  case Nil
  from assms show ?case
    by (auto simp: loop_body_def error_block_def Let_def split: option.splits if_splits)
next
  case (Cons x xs)
  show ?case
  proof (cases "response st = None")
    case False
    then show ?thesis by auto
  next
    case True
    obtain evs1 st1 sig where body: "loop_body st x = (evs1, st1, sig)"
      by (cases "loop_body st x") auto
    show ?thesis
    proof (cases sig)
      case Fallthrough
      with True body Cons.IH [of st1] show ?thesis
        by (auto split: prod.splits)
    next
      case (SystemExit m)
      with True body show ?thesis by simp
    next
      case (Propagate e)
      with True body show ?thesis by simp
    qed
  qed
qed

lemma loop_body_keeps_error:
  assumes "loop_body st x = (evs, st', Fallthrough)" and "error st \<noteq> None"
  shows "error st' \<noteq> None \<and> retry st' = retry st + 1 \<and> retry st' \<le> MAX_RETRIES"
proof -
  obtain evs1 st1 sig1 where t: "try_block st (fst x) = (evs1, st1, sig1)"
    by (cases "try_block st (fst x)") auto
  from t assms(2) have e1: "error st1 \<noteq> None"
    by (cases "(st, fst x)" rule: try_block.cases) (auto split: if_splits option.splits)
  from assms(1) t have sig1: "sig1 = Fallthrough"
    by (auto simp: loop_body_def split: signal.splits prod.splits)
  with assms(1) t obtain evs2 where "error_block st1 (snd x) = (evs2, st', Fallthrough)"
    by (auto simp: loop_body_def split: prod.splits)
  with e1 have "error st' \<noteq> None \<and> retry st' = retry st1 + 1 \<and> retry st' \<le> MAX_RETRIES"
    by (auto simp: error_block_def Let_def split: option.splits if_splits)
  with try_block_retry [OF t] show ?thesis by simp
qed

lemma retries_run_out:
  "error st \<noteq> None \<Longrightarrow> retry st \<le> MAX_RETRIES \<Longrightarrow> MAX_RETRIES < retry st + length xs \<Longrightarrow>
   snd (snd (while_loop st xs)) \<noteq> AwaitingChunk"
proof (induction xs arbitrary: st)
  case Nil
  then show ?case by simp
next
  case (Cons x xs)
  show ?case
  proof (cases "response st = None")
    case False
    then show ?thesis by auto
  next
    case True
    obtain evs1 st1 sig where body: "loop_body st x = (evs1, st1, sig)"
      by (cases "loop_body st x") auto
    show ?thesis
    proof (cases sig)
      case Fallthrough
      with body Cons.prems(1) loop_body_keeps_error [of st x evs1 st1]
      have "error st1 \<noteq> None" "retry st1 = retry st + 1" "retry st1 \<le> MAX_RETRIES"
        by auto
      with Cons.prems(3) Cons.IH [of st1] have "snd (snd (while_loop st1 xs)) \<noteq> AwaitingChunk"
        by simp
      with True body Fallthrough show ?thesis
        by (auto split: prod.splits)
    next
      case (SystemExit m)
      with True body show ?thesis by simp
    next
      case (Propagate e)
      with True body show ?thesis by simp
    qed
  qed
qed

subsection \<open>The variable \<^verbatim>\<open>error\<close> is never reset\<close>

text \<open>While no attempt has failed, an unfinished transfer changes nothing and does
  not sleep.\<close>

lemma progress_without_error:
  "error st = None \<Longrightarrow> response st = None \<Longrightarrow>
   loop_body st (Returns None, u) = ([Print UploadingFile], st, Fallthrough)"
  by (simp add: loop_body_def error_block_def)

text \<open>
  Claim C3 fails on the code. \<^verbatim>\<open>error\<close> is assigned in the \<^verbatim>\<open>except\<close> clauses and
  nowhere else, so after one retriable failure the test \<^verbatim>\<open>error is not None\<close> holds in
  every later iteration: an attempt that returns \<^verbatim>\<open>(status, None)\<close> without raising
  prints the old error again, increments the counter to 2 and sleeps.
\<close>

theorem progress_after_failure_backs_off:
  "resumable_upload [(Raises (HttpError 503 ''busy''), 1/2), (Returns None, 1/2)]
   = ([Print UploadingFile, Print (ErrorText (RetriableHttpError 503 ''busy'')),
       Print (SleepingAndRetrying 1), Sleep 1,
       Print UploadingFile, Print (ErrorText (RetriableHttpError 503 ''busy'')),
       Print (SleepingAndRetrying 2), Sleep 2],
      \<lparr>response = None, error = Some (RetriableHttpError 503 ''busy''), retry = 2\<rparr>,
      AwaitingChunk)"
  by (simp add: run_defs)

text \<open>
  Claim C5 fails on the code in its ``only if''. After one retriable failure the
  retry path is taken by every later attempt, also by one that raises nothing: the run
  in which the second attempt returns \<^verbatim>\<open>(status, None)\<close> is the run in which the second
  attempt raises the \<^verbatim>\<open>IOError\<close> again, event for event, with the same counter. What
  the \<^verbatim>\<open>except\<close> clauses do with an exception is as the claim says
  (\<open>except_clauses_retriable\<close>, \<open>other_status_propagates\<close>).
\<close>

theorem returning_attempt_taken_for_failure:
  "resumable_upload [(Raises (IOError ''reset''), 1/2), (Returns None, 1/2)]
     = resumable_upload [(Raises (IOError ''reset''), 1/2), (Raises (IOError ''reset''), 1/2)]
   \<and> resumable_upload [(Raises (IOError ''reset''), 1/2), (Returns None, 1/2)]
     = ([Print UploadingFile, Print (ErrorText (RetriableError (IOError ''reset''))),
         Print (SleepingAndRetrying 1), Sleep 1,
         Print UploadingFile, Print (ErrorText (RetriableError (IOError ''reset''))),
         Print (SleepingAndRetrying 2), Sleep 2],
        \<lparr>response = None, error = Some (RetriableError (IOError ''reset'')), retry = 2\<rparr>,
        AwaitingChunk)"
  by (simp add: run_defs)

text \<open>
  Claim C2 fails on the code in its second half. After ten retriable failures a
  response with an \<^verbatim>\<open>id\<close> is followed by the error block: the counter becomes 11 and
  the function leaves by \<^verbatim>\<open>exit("No longer attempting to retry.")\<close>, as it does after
  eleven failures.
\<close>

theorem ten_failures_then_complete_exits:
  "snd (resumable_upload (replicate 10 (Raises (HttpError 503 ''busy''), 1/2)
          @ [(Returns (Some [(''id'', ''abc'')]), 1/2)]))
     = (\<lparr>response = Some [(''id'', ''abc'')], error = Some (RetriableHttpError 503 ''busy''),
         retry = 11\<rparr>, Exited NoLongerRetrying)
   \<and> snd (resumable_upload (replicate 11 (Raises (HttpError 503 ''busy''), 1/2)))
     = (\<lparr>response = None, error = Some (RetriableHttpError 503 ''busy''), retry = 11\<rparr>,
        Exited NoLongerRetrying)"
  by (simp add: run_defs numeral_eq_Suc)

text \<open>
  Claim C1 fails on the code. One retriable failure, nine unfinished chunks and a
  final response with an \<^verbatim>\<open>id\<close>: the run prints that the video was uploaded and then
  leaves by \<^verbatim>\<open>exit("No longer attempting to retry.")\<close>.
\<close>

theorem success_then_failure_reported:
  "Print (UploadedVideo ''abc'')
     \<in> set (fst (resumable_upload ((Raises (IOError ''reset''), 1/2)
                 # replicate 9 (Returns None, 1/2) @ [(Returns (Some [(''id'', ''abc'')]), 1/2)])))
   \<and> snd (snd (resumable_upload ((Raises (IOError ''reset''), 1/2)
                 # replicate 9 (Returns None, 1/2) @ [(Returns (Some [(''id'', ''abc'')]), 1/2)])))
     = Exited NoLongerRetrying"
  by (simp add: run_defs numeral_eq_Suc)

section \<open>Properties of the request\<close>

subsection \<open>Splitting at commas\<close>

lemma str_split_not_Nil: "str_split sep s \<noteq> []"
  by (induction s) (auto split: list.splits)

lemma str_join_Cons: "ws \<noteq> [] \<Longrightarrow> str_join sep (w # ws) = w @ sep @ str_join sep ws"
  by (cases ws) auto

lemma str_join_Cons_hd: "str_join sep ((c # w) # ws) = c # str_join sep (w # ws)"
  by (cases ws) auto

lemma str_join_str_split: "str_join [sep] (str_split sep s) = s"
proof (induction s)
  case Nil
  show ?case by simp
next
  case (Cons c cs)
  show ?case
  proof (cases "c = sep")
    case True
    with Cons show ?thesis by (simp add: str_join_Cons str_split_not_Nil)
  next
    case False
    obtain w ws where ws: "str_split sep cs = w # ws"
      using str_split_not_Nil [of sep cs] by (cases "str_split sep cs") auto
    with False Cons show ?thesis by (simp add: str_join_Cons_hd)
  qed
qed

lemma str_split_no_sep: "w \<in> set (str_split sep s) \<Longrightarrow> sep \<notin> set w"
  by (induction s arbitrary: w) (auto split: if_splits list.splits)

lemma length_str_split: "length (str_split sep s) = Suc (count_list s sep)"
  by (induction s) (auto split: list.splits simp: str_split_not_Nil)

subsection \<open>Tags and privacy status\<close>

text \<open>
  Claim C9. With the empty keywords string the request carries \<^verbatim>\<open>None\<close> for its tags,
  not a list holding the empty string; with \<^verbatim>\<open>"a,b,c"\<close> it carries the list
  \<^verbatim>\<open>["a", "b", "c"]\<close>; its privacy status is always the option's.
\<close>

theorem tags_and_privacy:
  "(keywords opts = [] \<longrightarrow>
      request_tags (fst (initialize_upload opts xs)) = Some JNull
      \<and> request_tags (fst (initialize_upload opts xs)) \<noteq> Some (JList [JString []]))
   \<and> (keywords opts = ''a,b,c'' \<longrightarrow>
      request_tags (fst (initialize_upload opts xs))
        = Some (JList [JString ''a'', JString ''b'', JString ''c'']))
   \<and> request_privacy (fst (initialize_upload opts xs)) = Some (JString (privacyStatus opts))"
  by (simp add: initialize_upload_def insert_request_def request_tags_def request_privacy_def
      body_def tags_def)

theorem tags_and_privacy_witness:
  "keywords \<lparr>file = ''clip.mp4'', title = ''Demo'', description = ''Test Description'',
      category = ''22'', keywords = [], privacyStatus = ''unlisted''\<rparr> = []
   \<and> request_tags (fst (initialize_upload
        \<lparr>file = ''clip.mp4'', title = ''Demo'', description = ''Test Description'',
         category = ''22'', keywords = [], privacyStatus = ''unlisted''\<rparr> [])) = Some JNull
   \<and> request_privacy (fst (initialize_upload
        \<lparr>file = ''clip.mp4'', title = ''Demo'', description = ''Test Description'',
         category = ''22'', keywords = [], privacyStatus = ''unlisted''\<rparr> []))
       = Some (JString ''unlisted'')
   \<and> request_tags (fst (initialize_upload
        \<lparr>file = ''clip.mp4'', title = ''Demo'', description = ''Test Description'',
         category = ''22'', keywords = ''a,b,c'', privacyStatus = ''public''\<rparr> []))
       = Some (JList [JString ''a'', JString ''b'', JString ''c''])"
  using tags_and_privacy [where xs = "[]"
      and opts = "\<lparr>file = ''clip.mp4'', title = ''Demo'', description = ''Test Description'',
         category = ''22'', keywords = [], privacyStatus = ''unlisted''\<rparr>"]
    tags_and_privacy [where xs = "[]"
      and opts = "\<lparr>file = ''clip.mp4'', title = ''Demo'', description = ''Test Description'',
         category = ''22'', keywords = ''a,b,c'', privacyStatus = ''public''\<rparr>"]
  by simp

text \<open>
  Claim C10. For a keywords string that is not empty the tags are its split at every
  comma, nothing trimmed and nothing dropped: joining the tags with commas gives the
  string back, no tag holds a comma, and there is one tag more than there are commas.
  So \<^verbatim>\<open>"a,b,"\<close> gives \<^verbatim>\<open>["a", "b", ""]\<close> and \<^verbatim>\<open>"a,,b"\<close> gives \<^verbatim>\<open>["a", "", "b"]\<close>.
\<close>

theorem tags_naive_split:
  assumes "keywords opts \<noteq> []"
  shows "\<exists>ws. request_tags (fst (initialize_upload opts xs)) = Some (JList (map JString ws))
      \<and> ws = str_split CHR '','' (keywords opts)
      \<and> str_join '','' ws = keywords opts
      \<and> (\<forall>w \<in> set ws. CHR '','' \<notin> set w)
      \<and> length ws = Suc (count_list (keywords opts) CHR '','')
      \<and> (keywords opts = ''a,b,'' \<longrightarrow> ws = [''a'', ''b'', []])
      \<and> (keywords opts = ''a,,b'' \<longrightarrow> ws = [''a'', [], ''b''])"
proof -
  let ?ws = "str_split CHR '','' (keywords opts)"
  from assms have "request_tags (fst (initialize_upload opts xs)) = Some (JList (map JString ?ws))"
    by (simp add: initialize_upload_def insert_request_def request_tags_def body_def tags_def)
  moreover have "str_join '','' ?ws = keywords opts"
    by (rule str_join_str_split)
  moreover have "\<forall>w \<in> set ?ws. CHR '','' \<notin> set w"
    by (auto dest: str_split_no_sep)
  moreover have "length ?ws = Suc (count_list (keywords opts) CHR '','')"
    by (rule length_str_split)
  moreover have "keywords opts = ''a,b,'' \<longrightarrow> ?ws = [''a'', ''b'', []]"
    by simp
  moreover have "keywords opts = ''a,,b'' \<longrightarrow> ?ws = [''a'', [], ''b'']"
    by simp
  ultimately show ?thesis by blast
qed

theorem tags_naive_split_witness:
  "keywords \<lparr>file = ''clip.mp4'', title = ''Demo'', description = ''Test Description'',
      category = ''22'', keywords = ''a,b,'', privacyStatus = ''public''\<rparr> \<noteq> []
   \<and> request_tags (fst (initialize_upload
        \<lparr>file = ''clip.mp4'', title = ''Demo'', description = ''Test Description'',
         category = ''22'', keywords = ''a,b,'', privacyStatus = ''public''\<rparr> []))
       = Some (JList [JString ''a'', JString ''b'', JString []])
   \<and> request_tags (fst (initialize_upload
        \<lparr>file = ''clip.mp4'', title = ''Demo'', description = ''Test Description'',
         category = ''22'', keywords = ''a,,b'', privacyStatus = ''public''\<rparr> []))
       = Some (JList [JString ''a'', JString [], JString ''b''])"
  using tags_naive_split [where xs = "[]"
      and opts = "\<lparr>file = ''clip.mp4'', title = ''Demo'', description = ''Test Description'',
         category = ''22'', keywords = ''a,b,'', privacyStatus = ''public''\<rparr>"]
    tags_naive_split [where xs = "[]"
      and opts = "\<lparr>file = ''clip.mp4'', title = ''Demo'', description = ''Test Description'',
         category = ''22'', keywords = ''a,,b'', privacyStatus = ''public''\<rparr>"]
  by simp

end
